theory Spec2Isabelle
  imports Complex_Main "HOL-Library.AList"
begin

section \<open>Data model\<close>

text \<open>
  The location tracker keeps plain JavaScript objects in its queue. An object is modelled
  as an association list from property names to values, in insertion order; the object
  spread \<^verbatim>\<open>{...location, timestamp: t, user_id: u}\<close> is then two
  \<^const>\<open>AList.update\<close>s, which replace a property in place when it is present and
  append it otherwise. Numbers are only copied by the code under study (coordinates) or
  read from the clock (timestamps in milliseconds), never computed with, so they are
  reals here; a missing property (\<^verbatim>\<open>undefined\<close>) is a failed lookup.
\<close>

datatype jsval = Num real | Str string | Bool bool | Null

type_synonym location = "(string \<times> jsval) list"

text \<open>
  Every handler (an event listener, a timer callback, an \<^verbatim>\<open>async\<close> method) is a
  function from state to state that runs to its end: what it awaits happens in program
  order, and no other handler runs in between. The loop of \<^verbatim>\<open>processQueue\<close> is
  also available one iteration at a time (\<open>drainStep\<close>), for what holds between any two of
  its steps.

  What a handler does to the outside world is recorded in a trace: a delivery call that
  returned success, a delivery call that failed, and a suspension
  \<^verbatim>\<open>await this.delay(ms)\<close>.
\<close>

datatype event = Sent location | Failed location | Delay nat

text \<open>
  The environment: \<open>deliver n l\<close> is the outcome of the \<open>n\<close>-th delivery call of the
  run, made on record \<open>l\<close> (\<^verbatim>\<open>sendLocation\<close> returns \<^verbatim>\<open>true\<close>, or
  \<^verbatim>\<open>sendLocationToSupabase\<close> resolves); \<open>dbOk n\<close> tells whether the \<open>n\<close>-th
  IndexedDB request of the run completes or raises; \<open>syncSupported\<close> is the test
  \<^verbatim>\<open>'serviceWorker' in navigator && 'sync' in ServiceWorkerRegistration.prototype\<close>.
\<close>

record env =
  deliver :: "nat \<Rightarrow> location \<Rightarrow> bool"
  dbOk :: "nat \<Rightarrow> bool"
  syncSupported :: bool

text \<open>
  The fields of \<^verbatim>\<open>LocationManager\<close>, together with the IndexedDB value under key
  \<^verbatim>\<open>'queue'\<close> of store \<^verbatim>\<open>'locations'\<close> (\<open>stored\<close>, \<open>None\<close> while the key
  is absent), the pending \<^verbatim>\<open>'location-sync'\<close> registration, the counters that
  index the environment, and the trace. \<open>db\<close> tells whether \<^verbatim>\<open>this.db\<close> is set.
\<close>

record state =
  queue :: "location list"
  isProcessing :: bool
  retryCount :: nat
  maxRetries :: nat
  isOnline :: bool
  db :: bool
  stored :: "location list option"
  syncPending :: bool
  attempts :: nat
  dbOps :: nat
  trace :: "event list"

fun deliveredOf :: "event list \<Rightarrow> location list" where
  "deliveredOf [] = []"
| "deliveredOf (Sent l # es) = l # deliveredOf es"
| "deliveredOf (e # es) = deliveredOf es"

fun failuresOf :: "event list \<Rightarrow> nat" where
  "failuresOf [] = 0"
| "failuresOf (Failed l # es) = Suc (failuresOf es)"
| "failuresOf (e # es) = failuresOf es"

fun delaysOf :: "event list \<Rightarrow> nat list" where
  "delaysOf [] = []"
| "delaysOf (Delay d # es) = d # delaysOf es"
| "delaysOf (e # es) = delaysOf es"

section \<open>LocationManager\<close>

text \<open>
  The constructor; \<open>online\<close> is \<^verbatim>\<open>navigator.onLine\<close>, \<open>persisted\<close> what IndexedDB
  holds. The handle \<^verbatim>\<open>this.db\<close> is set later, by \<^verbatim>\<open>initDB\<close>.
\<close>

definition newLocationManager :: "bool \<Rightarrow> location list option \<Rightarrow> state" where
  "newLocationManager online persisted =
     \<lparr>queue = [], isProcessing = False, retryCount = 0, maxRetries = 3, isOnline = online,
      db = False, stored = persisted, syncPending = False, attempts = 0, dbOps = 0,
      trace = []\<rparr>"

text \<open>\<^verbatim>\<open>initDB\<close>: the handle is set when \<^verbatim>\<open>openDB\<close> resolves; a failure is logged.\<close>

definition initDB :: "env \<Rightarrow> state \<Rightarrow> state" where
  "initDB e s =
     (if dbOk e (dbOps s) then s\<lparr>db := True, dbOps := dbOps s + 1\<rparr>
      else s\<lparr>dbOps := dbOps s + 1\<rparr>)"

text \<open>
  The read \<^verbatim>\<open>await db.get('locations', 'queue') || []\<close>, which both the page and
  the service worker start from.
\<close>

definition snapshot :: "state \<Rightarrow> location list" where
  "snapshot s = (case stored s of None \<Rightarrow> [] | Some q \<Rightarrow> q)"

text \<open>
  \<^verbatim>\<open>saveToIndexedDB\<close>: nothing without a handle; otherwise read the snapshot, push,
  keep the last 100 (\<^verbatim>\<open>queue.splice(0, queue.length - 100)\<close>), write back. Either
  request may raise; the \<^verbatim>\<open>catch\<close> logs and the snapshot stays as it was.
\<close>

definition saveToIndexedDB :: "env \<Rightarrow> location \<Rightarrow> state \<Rightarrow> state" where
  "saveToIndexedDB e l s =
     (if \<not> db s then s
      else if \<not> dbOk e (dbOps s) then s\<lparr>dbOps := dbOps s + 1\<rparr>
      else
        let q = snapshot s @ [l];
            q' = (if length q > 100 then drop (length q - 100) q else q)
        in if \<not> dbOk e (dbOps s + 1) then s\<lparr>dbOps := dbOps s + 2\<rparr>
           else s\<lparr>stored := Some q', dbOps := dbOps s + 2\<rparr>)"

text \<open>\<^verbatim>\<open>sendLocation\<close> returns \<^verbatim>\<open>false\<close> on an error reply and on any exception.\<close>

definition sendLocation :: "env \<Rightarrow> state \<Rightarrow> location \<Rightarrow> bool" where
  "sendLocation e s l = deliver e (attempts s) l"

text \<open>
  One iteration of the \<^verbatim>\<open>while\<close> loop of \<^verbatim>\<open>processQueue\<close>: shift the head,
  send it; on failure with budget left put it back at the head, count the failure and
  sleep \<^verbatim>\<open>Math.pow(2, retryCount) * 1000\<close> ms; on failure without budget hand the
  record to \<^verbatim>\<open>saveToIndexedDB\<close> and go on.
\<close>

definition drainStep :: "env \<Rightarrow> state \<Rightarrow> state" where
  "drainStep e s =
     (case queue s of
        [] \<Rightarrow> s
      | l # q \<Rightarrow>
          let success = sendLocation e s l;
              s1 = s\<lparr>queue := q, attempts := attempts s + 1\<rparr>
          in if success then s1\<lparr>trace := trace s @ [Sent l]\<rparr>
             else if retryCount s < maxRetries s then
               s1\<lparr>queue := l # q, retryCount := retryCount s + 1,
                  trace := trace s @ [Failed l, Delay (2 ^ (retryCount s + 1) * 1000)]\<rparr>
             else saveToIndexedDB e l (s1\<lparr>trace := trace s @ [Failed l]\<rparr>))"

function drainLoop :: "env \<Rightarrow> state \<Rightarrow> state" where
  "drainLoop e s = (if queue s = [] then s else drainLoop e (drainStep e s))"
  by pat_completeness auto
termination
  by (relation "measure (\<lambda>(e, s). length (queue s) + (maxRetries s - retryCount s))")
     (auto simp: drainStep_def saveToIndexedDB_def Let_def split: list.splits)

declare drainLoop.simps [simp del]

definition processQueue :: "env \<Rightarrow> state \<Rightarrow> state" where
  "processQueue e s =
     (if isProcessing s \<or> queue s = [] \<or> \<not> isOnline s then s
      else (drainLoop e (s\<lparr>isProcessing := True\<rparr>))\<lparr>isProcessing := False, retryCount := 0\<rparr>)"

definition scheduleBackgroundSync :: "env \<Rightarrow> state \<Rightarrow> state" where
  "scheduleBackgroundSync e s = (if syncSupported e then s\<lparr>syncPending := True\<rparr> else s)"

text \<open>\<^verbatim>\<open>{...location, timestamp: Date.now(), user_id: 'anonymous'}\<close>, \<open>now\<close> being the clock.\<close>

definition locationData :: "real \<Rightarrow> location \<Rightarrow> location" where
  "locationData now l =
     AList.update ''user_id'' (Str ''anonymous'') (AList.update ''timestamp'' (Num now) l)"

definition addLocation :: "env \<Rightarrow> real \<Rightarrow> location \<Rightarrow> state \<Rightarrow> state" where
  "addLocation e now l s =
     (let ld = locationData now l;
          s1 = s\<lparr>queue := queue s @ [ld]\<rparr>;
          s2 = saveToIndexedDB e ld s1
      in if isOnline s2 then processQueue e s2 else scheduleBackgroundSync e s2)"

definition getQueueLength :: "state \<Rightarrow> nat" where
  "getQueueLength s = length (queue s)"

text \<open>The two listeners of \<^verbatim>\<open>setupNetworkListener\<close>.\<close>

definition onOnline :: "env \<Rightarrow> state \<Rightarrow> state" where
  "onOnline e s = processQueue e (s\<lparr>isOnline := True\<rparr>)"

definition onOffline :: "state \<Rightarrow> state" where
  "onOffline s = s\<lparr>isOnline := False\<rparr>"

text \<open>
  The row that \<^verbatim>\<open>sendLocation\<close> inserts into \<^verbatim>\<open>location_updates\<close>. The
  text \<^verbatim>\<open>new Date(v).toISOString()\<close> is kept symbolic: \<open>ISOString v\<close>.
\<close>

datatype isostring = ISOString "jsval option"

record row =
  row_lat :: "jsval option"
  row_lng :: "jsval option"
  row_accuracy :: "jsval option"
  row_timestamp :: isostring
  row_user_id :: "jsval option"

definition insertRow :: "location \<Rightarrow> row" where
  "insertRow l =
     \<lparr>row_lat = map_of l ''lat'', row_lng = map_of l ''lng'',
      row_accuracy = map_of l ''accuracy'',
      row_timestamp = ISOString (map_of l ''timestamp''),
      row_user_id = map_of l ''user_id''\<rparr>"

section \<open>Service worker\<close>




text \<open>
  The \<^verbatim>\<open>for ... of\<close> loop of \<^verbatim>\<open>syncLocations\<close>:
  \<^verbatim>\<open>sendLocationToSupabase\<close> throws when the reply is not ok, which leaves the loop
  and the function through the \<^verbatim>\<open>catch\<close>. The result tells whether the loop ran
  to its end.
\<close>

fun sendAll :: "env \<Rightarrow> location list \<Rightarrow> state \<Rightarrow> bool \<times> state" where
  "sendAll e [] s = (True, s)"
| "sendAll e (l # ls) s =
     (if deliver e (attempts s) l
      then sendAll e ls (s\<lparr>attempts := attempts s + 1, trace := trace s @ [Sent l]\<rparr>)
      else (False, s\<lparr>attempts := attempts s + 1, trace := trace s @ [Failed l]\<rparr>))"


section \<open>GeolocationService\<close>

text \<open>A \<^verbatim>\<open>GeolocationPosition\<close>; \<open>None\<close> is \<^verbatim>\<open>null\<close>.\<close>

record position =
  latitude :: real
  longitude :: real
  accuracy :: real
  timestamp :: real
  speed :: "real option"
  heading :: "real option"

text \<open>\<^verbatim>\<open>x || null\<close> on a number or \<^verbatim>\<open>null\<close>: zero is falsy.\<close>

definition orNull :: "real option \<Rightarrow> jsval" where
  "orNull x = (case x of None \<Rightarrow> Null | Some v \<Rightarrow> if v = 0 then Null else Num v)"

text \<open>
  The fields of \<^verbatim>\<open>GeolocationService\<close> that the handlers use, the
  \<^verbatim>\<open>locationManager\<close> singleton it feeds, and the samples it has emitted (handed to
  \<^verbatim>\<open>locationManager.addLocation\<close> and to the \<^verbatim>\<open>onLocationUpdate\<close> callback).
\<close>

record tracker =
  isTracking :: bool
  lastLocation :: "location option"
  emitted :: "location list"
  manager :: state

definition newGeolocationService :: "state \<Rightarrow> tracker" where
  "newGeolocationService m =
     \<lparr>isTracking = False, lastLocation = None, emitted = [], manager = m\<rparr>"

definition locationOf :: "position \<Rightarrow> location" where
  "locationOf p =
     [(''lat'', Num (latitude p)), (''lng'', Num (longitude p)),
      (''accuracy'', Num (accuracy p)), (''timestamp'', Num (timestamp p)),
      (''speed'', orNull (speed p)), (''heading'', orNull (heading p))]"

text \<open>\<^verbatim>\<open>handlePosition\<close>; \<open>now\<close> is the clock read by \<^verbatim>\<open>addLocation\<close>.\<close>

definition handlePosition :: "env \<Rightarrow> real \<Rightarrow> position \<Rightarrow> tracker \<Rightarrow> tracker" where
  "handlePosition e now p g =
     (let location = locationOf p
      in g\<lparr>lastLocation := Some location,
           manager := addLocation e now location (manager g),
           emitted := emitted g @ [location]\<rparr>)"

text \<open>\<^verbatim>\<open>{...this.lastLocation, timestamp: Date.now(), forced: true}\<close>\<close>

definition forcedLocation :: "real \<Rightarrow> location \<Rightarrow> location" where
  "forcedLocation tick l =
     AList.update ''forced'' (Bool True) (AList.update ''timestamp'' (Num tick) l)"

text \<open>
  The callback of the timer that \<^verbatim>\<open>startForcedUpdates\<close> arms; \<open>tick\<close> is the clock
  read by the callback, \<open>now\<close> the clock read by \<^verbatim>\<open>addLocation\<close> right after.
\<close>

definition forcedUpdate :: "env \<Rightarrow> real \<Rightarrow> real \<Rightarrow> tracker \<Rightarrow> tracker" where
  "forcedUpdate e tick now g =
     (case (isTracking g, lastLocation g) of
        (True, Some l) \<Rightarrow>
          let forced = forcedLocation tick l
          in g\<lparr>manager := addLocation e now forced (manager g),
               emitted := emitted g @ [forced]\<rparr>
      | _ \<Rightarrow> g)"

text \<open>A run of timer ticks, each with its two clock readings.\<close>

fun forcedUpdates :: "env \<Rightarrow> (real \<times> real) list \<Rightarrow> tracker \<Rightarrow> tracker" where
  "forcedUpdates e [] g = g"
| "forcedUpdates e ((tick, now) # ts) g = forcedUpdates e ts (forcedUpdate e tick now g)"

text \<open>
  A run of \<^verbatim>\<open>addLocation\<close> calls, each with its clock reading, that do not overlap:
  every call, with its save and what follows it, has finished before the next call is
  made. The callers do not await \<^verbatim>\<open>addLocation\<close>, so this is one way for calls to
  follow each other, not the only one; calls that overlap are modelled next.
\<close>

fun addLocations :: "env \<Rightarrow> (real \<times> location) list \<Rightarrow> state \<Rightarrow> state" where
  "addLocations e [] s = s"
| "addLocations e ((now, l) # ls) s = addLocations e ls (addLocation e now l s)"

section \<open>Enqueues that overlap\<close>

text \<open>
  \<^verbatim>\<open>addLocation\<close> is suspended twice, at the \<^verbatim>\<open>db.get\<close> and at the
  \<^verbatim>\<open>db.put\<close> of \<^verbatim>\<open>saveToIndexedDB\<close>, and other calls may start in between.
  A call therefore goes through three stages.
  \<^item> \<open>Call\<close>: the record is built and pushed; without a handle the save returns at once
    and the rest of \<^verbatim>\<open>addLocation\<close> follows; with a handle the read request is
    issued. IndexedDB serves requests in the order they are issued, so the value that the
    read will yield is the snapshot at this moment; \<open>None\<close> when the request raises.
  \<^item> \<open>GetDone\<close>: the oldest pending read resolves. The record is pushed onto the array
    that was read, the array is cut to its last 100, and the write request is issued.
    When the read raised, the \<^verbatim>\<open>catch\<close> logs and the rest of
    \<^verbatim>\<open>addLocation\<close> follows.
  \<^item> \<open>PutDone\<close>: the oldest pending write resolves or raises, and the rest of
    \<^verbatim>\<open>addLocation\<close> follows.

  A schedule is any list of these actions. It is used below for a page that stays
  offline, where the rest of \<^verbatim>\<open>addLocation\<close> only arms the background sync.
\<close>

datatype action = Call real location | GetDone | PutDone

text \<open>
  The page together with the reads in flight (the record to save and the value read) and
  the number of writes in flight.
\<close>

record sys =
  page :: state
  gets :: "(location \<times> location list option) list"
  puts :: nat

definition idle :: "state \<Rightarrow> sys" where
  "idle s = \<lparr>page = s, gets = [], puts = 0\<rparr>"

text \<open>What \<^verbatim>\<open>addLocation\<close> does after \<^verbatim>\<open>await this.saveToIndexedDB(...)\<close>.\<close>

definition afterSave :: "env \<Rightarrow> state \<Rightarrow> state" where
  "afterSave e s = (if isOnline s then processQueue e s else scheduleBackgroundSync e s)"

fun step :: "env \<Rightarrow> action \<Rightarrow> sys \<Rightarrow> sys" where
  "step e (Call now l) y =
     (let ld = locationData now l;
          s1 = (page y)\<lparr>queue := queue (page y) @ [ld]\<rparr>
      in if \<not> db s1 then y\<lparr>page := afterSave e s1\<rparr>
         else y\<lparr>page := s1\<lparr>dbOps := dbOps s1 + 1\<rparr>,
                gets := gets y @ [(ld, if dbOk e (dbOps s1) then Some (snapshot s1) else None)]\<rparr>)"
| "step e GetDone y =
     (case gets y of
        [] \<Rightarrow> y
      | (ld, None) # g \<Rightarrow> y\<lparr>page := afterSave e (page y), gets := g\<rparr>
      | (ld, Some q0) # g \<Rightarrow>
          let q = q0 @ [ld];
              q' = (if length q > 100 then drop (length q - 100) q else q);
              s = page y
          in y\<lparr>page := (if dbOk e (dbOps s) then s\<lparr>stored := Some q', dbOps := dbOps s + 1\<rparr>
                         else s\<lparr>dbOps := dbOps s + 1\<rparr>),
               gets := g, puts := puts y + 1\<rparr>)"
| "step e PutDone y =
     (if puts y = 0 then y else y\<lparr>page := afterSave e (page y), puts := puts y - 1\<rparr>)"

fun run :: "env \<Rightarrow> action list \<Rightarrow> sys \<Rightarrow> sys" where
  "run e [] y = y"
| "run e (a # as) y = run e as (step e a y)"

text \<open>The records that a schedule enqueues, in call order.\<close>

fun enqueued :: "action list \<Rightarrow> location list" where
  "enqueued [] = []"
| "enqueued (Call now l # as) = locationData now l # enqueued as"
| "enqueued (a # as) = enqueued as"

text \<open>The schedule of calls that do not overlap: each call with its two completions.\<close>

fun awaited :: "(real \<times> location) list \<Rightarrow> action list" where
  "awaited [] = []"
| "awaited ((now, l) # ls) = Call now l # GetDone # PutDone # awaited ls"

section \<open>Example scenarios\<close>

text \<open>Two position samples, and sinks that are down, up, or down for the first \<open>k\<close> calls
  of the run.\<close>

definition sampleA :: location where
  "sampleA = [(''lat'', Num 1), (''lng'', Num 2), (''accuracy'', Num 10)]"

definition sampleB :: location where
  "sampleB = [(''lat'', Num 3), (''lng'', Num 4), (''accuracy'', Num 20)]"

text \<open>A sample that already carries a timestamp and a user id of its own.\<close>

definition sampleC :: location where
  "sampleC =
     [(''lat'', Num 1), (''lng'', Num 2), (''timestamp'', Num 1), (''user_id'', Str ''heric'')]"

definition sinkDown :: env where
  "sinkDown = \<lparr>deliver = (\<lambda>n l. False), dbOk = (\<lambda>n. True), syncSupported = True\<rparr>"

definition sinkUp :: env where
  "sinkUp = \<lparr>deliver = (\<lambda>n l. True), dbOk = (\<lambda>n. True), syncSupported = True\<rparr>"

definition sinkAfter :: "nat \<Rightarrow> env" where
  "sinkAfter k = \<lparr>deliver = (\<lambda>n l. k \<le> n), dbOk = (\<lambda>n. True), syncSupported = True\<rparr>"

text \<open>A sink that refuses call number \<open>k\<close> only (calls are counted from 0).\<close>

definition sinkFailsAt :: "nat \<Rightarrow> env" where
  "sinkFailsAt k = \<lparr>deliver = (\<lambda>n l. n \<noteq> k), dbOk = (\<lambda>n. True), syncSupported = True\<rparr>"

text \<open>
  A page that started offline, opened its store and enqueued both samples; and the drain
  of that page, back online with the sink down, after three failed attempts.
\<close>

definition queuedAB :: state where
  "queuedAB =
     addLocation sinkDown 6 sampleB
       (addLocation sinkDown 5 sampleA (initDB sinkDown (newLocationManager False None)))"

definition threeFailures :: state where
  "threeFailures =
     drainStep sinkDown (drainStep sinkDown (drainStep sinkDown
       (queuedAB\<lparr>isOnline := True, isProcessing := True\<rparr>)))"

text \<open>A service whose tracking has started but has no fix yet, and a first fix.\<close>

definition trackingStarted :: tracker where
  "trackingStarted = (newGeolocationService (newLocationManager True None))\<lparr>isTracking := True\<rparr>"

definition fixA :: position where
  "fixA = \<lparr>latitude = 1, longitude = 2, accuracy = 10, timestamp = 100, speed = None,
            heading = Some 0\<rparr>"

section \<open>Basic facts\<close>

lemmas scenario_defs = sampleA_def sampleB_def sampleC_def sinkDown_def sinkUp_def sinkAfter_def
  sinkFailsAt_def
  newLocationManager_def initDB_def queuedAB_def threeFailures_def trackingStarted_def
  fixA_def newGeolocationService_def

lemmas run_defs = onOnline_def addLocation_def processQueue_def drainLoop.simps drainStep_def
  sendLocation_def saveToIndexedDB_def scheduleBackgroundSync_def snapshot_def Let_def
  locationData_def

lemma deliveredOf_append [simp]: "deliveredOf (xs @ ys) = deliveredOf xs @ deliveredOf ys"
  by (induction xs rule: deliveredOf.induct) simp_all

lemma failuresOf_append [simp]: "failuresOf (xs @ ys) = failuresOf xs + failuresOf ys"
  by (induction xs rule: failuresOf.induct) simp_all

lemma delaysOf_append [simp]: "delaysOf (xs @ ys) = delaysOf xs @ delaysOf ys"
  by (induction xs rule: delaysOf.induct) simp_all

lemma saveToIndexedDB_fields [simp]:
  "queue (saveToIndexedDB e l s) = queue s"
  "retryCount (saveToIndexedDB e l s) = retryCount s"
  "maxRetries (saveToIndexedDB e l s) = maxRetries s"
  "trace (saveToIndexedDB e l s) = trace s"
  "attempts (saveToIndexedDB e l s) = attempts s"
  "isOnline (saveToIndexedDB e l s) = isOnline s"
  "isProcessing (saveToIndexedDB e l s) = isProcessing s"
  "syncPending (saveToIndexedDB e l s) = syncPending s"
  "db (saveToIndexedDB e l s) = db s"
  by (simp_all add: saveToIndexedDB_def Let_def)

text \<open>The three outcomes of one loop iteration.\<close>

lemma drainStep_success:
  "queue s = l # q \<Longrightarrow> sendLocation e s l \<Longrightarrow>
   drainStep e s = s\<lparr>queue := q, attempts := attempts s + 1, trace := trace s @ [Sent l]\<rparr>"
  by (simp add: drainStep_def)

lemma drainStep_retry:
  "queue s = l # q \<Longrightarrow> \<not> sendLocation e s l \<Longrightarrow> retryCount s < maxRetries s \<Longrightarrow>
   drainStep e s =
     s\<lparr>queue := l # q, attempts := attempts s + 1, retryCount := retryCount s + 1,
       trace := trace s @ [Failed l, Delay (2 ^ (retryCount s + 1) * 1000)]\<rparr>"
  by (simp add: drainStep_def)

lemma drainStep_exhausted:
  "queue s = l # q \<Longrightarrow> \<not> sendLocation e s l \<Longrightarrow> \<not> retryCount s < maxRetries s \<Longrightarrow>
   drainStep e s =
     saveToIndexedDB e l
       (s\<lparr>queue := q, attempts := attempts s + 1, trace := trace s @ [Failed l]\<rparr>)"
  by (simp add: drainStep_def)

lemma drainStep_cases:
  assumes "queue s \<noteq> []"
  obtains (success) l q where "queue s = l # q" "sendLocation e s l"
  | (retry) l q where "queue s = l # q" "\<not> sendLocation e s l" "retryCount s < maxRetries s"
  | (exhausted) l q where "queue s = l # q" "\<not> sendLocation e s l"
      "\<not> retryCount s < maxRetries s"
  using assms by (cases "queue s") auto

lemma drainLoop_queue: "queue (drainLoop e s) = []"
  by (induction e s rule: drainLoop.induct) (simp add: drainLoop.simps)

lemma drainStep_unchanged [simp]:
  "maxRetries (drainStep e s) = maxRetries s"
  "isOnline (drainStep e s) = isOnline s"
  "isProcessing (drainStep e s) = isProcessing s"
  "syncPending (drainStep e s) = syncPending s"
  "db (drainStep e s) = db s"
  by (simp_all add: drainStep_def Let_def split: list.splits)

lemma drainLoop_unchanged [simp]:
  "maxRetries (drainLoop e s) = maxRetries s"
  "isOnline (drainLoop e s) = isOnline s"
  "isProcessing (drainLoop e s) = isProcessing s"
  "syncPending (drainLoop e s) = syncPending s"
  "db (drainLoop e s) = db s"
  by (induction e s rule: drainLoop.induct, simp add: drainLoop.simps)+

lemma drainStep_retryCount_mono: "retryCount s \<le> retryCount (drainStep e s)"
  by (simp add: drainStep_def Let_def split: list.splits)

lemma drainLoop_retryCount_mono: "retryCount s \<le> retryCount (drainLoop e s)"
proof (induction e s rule: drainLoop.induct)
  case (1 e s)
  show ?case
  proof (cases "queue s = []")
    case True
    then show ?thesis by (simp add: drainLoop.simps)
  next
    case False
    with 1 have "retryCount (drainStep e s) \<le> retryCount (drainLoop e (drainStep e s))" by simp
    with drainStep_retryCount_mono [of s e] False show ?thesis
      by (simp add: drainLoop.simps [of e s])
  qed
qed

lemma drainLoop_failures_mono: "failuresOf (trace s) \<le> failuresOf (trace (drainLoop e s))"
proof (induction e s rule: drainLoop.induct)
  case (1 e s)
  show ?case
  proof (cases "queue s = []")
    case True
    then show ?thesis by (simp add: drainLoop.simps)
  next
    case False
    have "failuresOf (trace s) \<le> failuresOf (trace (drainStep e s))"
      by (simp add: drainStep_def Let_def split: list.splits)
    with 1 False show ?thesis
      by (simp add: drainLoop.simps [of e s])
  qed
qed

text \<open>Delivered records when the failures stay within the budget.\<close>

lemma drainLoop_delivered:
  "failuresOf (trace (drainLoop e s)) + retryCount s \<le> failuresOf (trace s) + maxRetries s \<Longrightarrow>
   deliveredOf (trace (drainLoop e s)) = deliveredOf (trace s) @ queue s"
proof (induction e s rule: drainLoop.induct)
  case (1 e s)
  show ?case
  proof (cases "queue s = []")
    case True
    then show ?thesis by (simp add: drainLoop.simps)
  next
    case False
    then have unfold: "drainLoop e s = drainLoop e (drainStep e s)"
      by (simp add: drainLoop.simps [of e s])
    from False show ?thesis
    proof (cases rule: drainStep_cases [where e = e])
      case (success l q)
      then have st: "drainStep e s = s\<lparr>queue := q, attempts := attempts s + 1, trace := trace s @ [Sent l]\<rparr>"
        by (rule drainStep_success)
      from "1.prems" have "failuresOf (trace (drainLoop e (drainStep e s))) + retryCount (drainStep e s)
           \<le> failuresOf (trace (drainStep e s)) + maxRetries (drainStep e s)"
        by (simp add: unfold st)
      with "1.IH" [OF False] have "deliveredOf (trace (drainLoop e (drainStep e s))) =
          deliveredOf (trace (drainStep e s)) @ queue (drainStep e s)" by blast
      then show ?thesis by (simp add: unfold st success)
    next
      case (retry l q)
      then have st: "drainStep e s = s\<lparr>queue := l # q, attempts := attempts s + 1, retryCount := retryCount s + 1,
       trace := trace s @ [Failed l, Delay (2 ^ (retryCount s + 1) * 1000)]\<rparr>"
        by (rule drainStep_retry)
      from "1.prems" have "failuresOf (trace (drainLoop e (drainStep e s))) + retryCount (drainStep e s)
           \<le> failuresOf (trace (drainStep e s)) + maxRetries (drainStep e s)"
        by (simp add: unfold st)
      with "1.IH" [OF False] have "deliveredOf (trace (drainLoop e (drainStep e s))) =
          deliveredOf (trace (drainStep e s)) @ queue (drainStep e s)" by blast
      then show ?thesis by (simp add: unfold st retry)
    next
      case (exhausted l q)
      then have st: "drainStep e s = saveToIndexedDB e l
       (s\<lparr>queue := q, attempts := attempts s + 1, trace := trace s @ [Failed l]\<rparr>)"
        by (rule drainStep_exhausted)
      have "failuresOf (trace (drainStep e s)) \<le> failuresOf (trace (drainLoop e (drainStep e s)))"
        by (rule drainLoop_failures_mono)
      with "1.prems" exhausted have False by (simp add: unfold st)
      then show ?thesis ..
    qed
  qed
qed

text \<open>Backoff delays\<close>

lemma drainLoop_delays:
  "delaysOf (trace (drainLoop e s)) =
     delaysOf (trace s) @ map (\<lambda>k. 2 ^ k * 1000) [Suc (retryCount s) ..< Suc (retryCount (drainLoop e s))]"
proof (induction e s rule: drainLoop.induct)
  case (1 e s)
  show ?case
  proof (cases "queue s = []")
    case True
    then show ?thesis by (simp add: drainLoop.simps)
  next
    case False
    then have unfold: "drainLoop e s = drainLoop e (drainStep e s)"
      by (simp add: drainLoop.simps [of e s])
    note IH = "1.IH" [OF False]
    from False show ?thesis
    proof (cases rule: drainStep_cases [where e = e])
      case (success l q)
      then have st: "drainStep e s = s\<lparr>queue := q, attempts := attempts s + 1, trace := trace s @ [Sent l]\<rparr>"
        by (rule drainStep_success)
      from IH show ?thesis by (simp add: unfold st)
    next
      case (retry l q)
      then have st: "drainStep e s = s\<lparr>queue := l # q, attempts := attempts s + 1, retryCount := retryCount s + 1,
       trace := trace s @ [Failed l, Delay (2 ^ (retryCount s + 1) * 1000)]\<rparr>"
        by (rule drainStep_retry)
      have "retryCount (drainStep e s) \<le> retryCount (drainLoop e (drainStep e s))"
        by (rule drainLoop_retryCount_mono)
      then have le: "Suc (retryCount s) \<le> retryCount (drainLoop e (drainStep e s))"
        by (simp add: st)
      have "[Suc (retryCount s) ..< Suc (retryCount (drainLoop e (drainStep e s)))]
          = Suc (retryCount s) # [Suc (Suc (retryCount s)) ..< Suc (retryCount (drainLoop e (drainStep e s)))]"
        using le by (simp add: upt_conv_Cons)
      with IH show ?thesis by (simp add: unfold st)
    next
      case (exhausted l q)
      then have st: "drainStep e s = saveToIndexedDB e l
       (s\<lparr>queue := q, attempts := attempts s + 1, trace := trace s @ [Failed l]\<rparr>)"
        by (rule drainStep_exhausted)
      from IH show ?thesis by (simp add: unfold st)
    qed
  qed
qed

lemma drainLoop_retryCount:
  "retryCount s \<le> maxRetries s \<Longrightarrow>
   retryCount (drainLoop e s) =
     min (retryCount s + (failuresOf (trace (drainLoop e s)) - failuresOf (trace s))) (maxRetries s)"
proof (induction e s rule: drainLoop.induct)
  case (1 e s)
  show ?case
  proof (cases "queue s = []")
    case True
    with "1.prems" show ?thesis by (simp add: drainLoop.simps)
  next
    case False
    then have unfold: "drainLoop e s = drainLoop e (drainStep e s)"
      by (simp add: drainLoop.simps [of e s])
    note IH = "1.IH" [OF False]
    have mono: "failuresOf (trace (drainStep e s)) \<le> failuresOf (trace (drainLoop e (drainStep e s)))"
      by (rule drainLoop_failures_mono)
    from False show ?thesis
    proof (cases rule: drainStep_cases [where e = e])
      case (success l q)
      then have st: "drainStep e s = s\<lparr>queue := q, attempts := attempts s + 1, trace := trace s @ [Sent l]\<rparr>"
        by (rule drainStep_success)
      from IH "1.prems" show ?thesis by (simp add: unfold st)
    next
      case (retry l q)
      then have st: "drainStep e s = s\<lparr>queue := l # q, attempts := attempts s + 1, retryCount := retryCount s + 1,
       trace := trace s @ [Failed l, Delay (2 ^ (retryCount s + 1) * 1000)]\<rparr>"
        by (rule drainStep_retry)
      from IH retry mono show ?thesis by (simp add: unfold st)
    next
      case (exhausted l q)
      then have st: "drainStep e s = saveToIndexedDB e l
       (s\<lparr>queue := q, attempts := attempts s + 1, trace := trace s @ [Failed l]\<rparr>)"
        by (rule drainStep_exhausted)
      from IH "1.prems" exhausted mono show ?thesis by (simp add: unfold st)
    qed
  qed
qed

section \<open>Retry exhaustion\<close>

text \<open>
  Claim C1, as the code has it. Once \<open>retryCount\<close> has reached \<open>maxRetries\<close>, a failed
  delivery does not park the drain: the failed record leaves the in-memory queue with no
  further retry and no suspension, and is handed to \<^verbatim>\<open>saveToIndexedDB\<close>, which
  appends it to the durable snapshot when the store is open and both of its requests
  succeed. The drain then goes on with the remaining records, and a drain started on an
  idle, online manager always ends with the in-memory queue empty.
\<close>

theorem exhausted_retry_moves_on:
  "(queue s = l # q \<and> maxRetries s \<le> retryCount s \<and> \<not> sendLocation e s l \<longrightarrow>
      queue (drainStep e s) = q \<and>
      trace (drainStep e s) = trace s @ [Failed l] \<and>
      retryCount (drainStep e s) = retryCount s \<and>
      stored (drainStep e s) =
        (if db s \<and> dbOk e (dbOps s) \<and> dbOk e (dbOps s + 1)
         then Some (drop (length (snapshot s) + 1 - 100) (snapshot s @ [l]))
         else stored s)) \<and>
   (\<not> isProcessing s \<and> isOnline s \<longrightarrow>
      queue (processQueue e s) = [] \<and> \<not> isProcessing (processQueue e s))"
proof (intro conjI impI)
  assume a: "queue s = l # q \<and> maxRetries s \<le> retryCount s \<and> \<not> sendLocation e s l"
  then have st: "drainStep e s = saveToIndexedDB e l
       (s\<lparr>queue := q, attempts := attempts s + 1, trace := trace s @ [Failed l]\<rparr>)"
    by (intro drainStep_exhausted) auto
  show "queue (drainStep e s) = q" "trace (drainStep e s) = trace s @ [Failed l]"
    "retryCount (drainStep e s) = retryCount s"
    by (simp_all add: st)
  show "stored (drainStep e s) =
        (if db s \<and> dbOk e (dbOps s) \<and> dbOk e (dbOps s + 1)
         then Some (drop (length (snapshot s) + 1 - 100) (snapshot s @ [l]))
         else stored s)"
    by (simp add: st saveToIndexedDB_def Let_def snapshot_def)
next
  assume "\<not> isProcessing s \<and> isOnline s"
  then show "queue (processQueue e s) = []" "\<not> isProcessing (processQueue e s)"
    by (simp_all add: processQueue_def drainLoop_queue)
qed

text \<open>
  The theorem at the drain of \<open>queuedAB\<close> after three failed attempts, and at the start of
  that drain.
\<close>

theorem exhausted_retry_moves_on_witness:
  "queue threeFailures = [locationData 5 sampleA, locationData 6 sampleB] \<and>
   maxRetries threeFailures \<le> retryCount threeFailures \<and>
   \<not> sendLocation sinkDown threeFailures (locationData 5 sampleA) \<and>
   queue (drainStep sinkDown threeFailures) = [locationData 6 sampleB] \<and>
   trace (drainStep sinkDown threeFailures) =
     trace threeFailures @ [Failed (locationData 5 sampleA)] \<and>
   stored (drainStep sinkDown threeFailures) =
     Some [locationData 5 sampleA, locationData 6 sampleB, locationData 5 sampleA] \<and>
   \<not> isProcessing (queuedAB\<lparr>isOnline := True\<rparr>) \<and> isOnline (queuedAB\<lparr>isOnline := True\<rparr>) \<and>
   queue (processQueue sinkDown (queuedAB\<lparr>isOnline := True\<rparr>)) = []"
proof -
  have q: "queue threeFailures = [locationData 5 sampleA, locationData 6 sampleB]"
    by (simp add: scenario_defs run_defs)
  have r: "maxRetries threeFailures \<le> retryCount threeFailures"
    by (simp add: scenario_defs run_defs)
  have f: "\<not> sendLocation sinkDown threeFailures (locationData 5 sampleA)"
    by (simp add: sendLocation_def sinkDown_def)
  have st: "stored threeFailures = Some [locationData 5 sampleA, locationData 6 sampleB]"
    "db threeFailures" "dbOk sinkDown n" for n
    by (simp_all add: scenario_defs run_defs)
  have i: "\<not> isProcessing (queuedAB\<lparr>isOnline := True\<rparr>)"
    by (simp add: scenario_defs run_defs)
  from exhausted_retry_moves_on [of threeFailures "locationData 5 sampleA"
      "[locationData 6 sampleB]" sinkDown]
    exhausted_retry_moves_on [of "queuedAB\<lparr>isOnline := True\<rparr>" _ _ sinkDown] q r f st i
  show ?thesis by (simp add: snapshot_def)
qed

text \<open>
  With the sink down, the drain of two queued records does not halt after the third
  failure: the first record is tried a fourth time, the second record is tried as well,
  and the in-memory queue ends empty.
\<close>

theorem exhausted_retry_counterexample:
  "queue (onOnline sinkDown queuedAB) = [] \<and>
   trace (onOnline sinkDown queuedAB) =
     [Failed (locationData 5 sampleA), Delay 2000, Failed (locationData 5 sampleA), Delay 4000,
      Failed (locationData 5 sampleA), Delay 8000, Failed (locationData 5 sampleA),
      Failed (locationData 6 sampleB)]"
  by (simp add: scenario_defs run_defs)

section \<open>Draining what was queued offline\<close>

text \<open>Enqueueing while offline only appends, persists and arms the background sync.\<close>

lemma addLocation_offline:
  "\<not> isOnline s \<Longrightarrow>
   addLocation e now l s =
     scheduleBackgroundSync e (saveToIndexedDB e (locationData now l)
       (s\<lparr>queue := queue s @ [locationData now l]\<rparr>))"
  by (simp add: addLocation_def Let_def)

lemma scheduleBackgroundSync_fields [simp]:
  "queue (scheduleBackgroundSync e s) = queue s"
  "retryCount (scheduleBackgroundSync e s) = retryCount s"
  "maxRetries (scheduleBackgroundSync e s) = maxRetries s"
  "trace (scheduleBackgroundSync e s) = trace s"
  "attempts (scheduleBackgroundSync e s) = attempts s"
  "isOnline (scheduleBackgroundSync e s) = isOnline s"
  "isProcessing (scheduleBackgroundSync e s) = isProcessing s"
  "db (scheduleBackgroundSync e s) = db s"
  "stored (scheduleBackgroundSync e s) = stored s"
  "dbOps (scheduleBackgroundSync e s) = dbOps s"
  by (simp_all add: scheduleBackgroundSync_def)

lemma addLocations_offline:
  "\<not> isOnline s \<Longrightarrow>
   queue (addLocations e ls s) = queue s @ map (\<lambda>(now, l). locationData now l) ls \<and>
   trace (addLocations e ls s) = trace s \<and>
   retryCount (addLocations e ls s) = retryCount s \<and>
   maxRetries (addLocations e ls s) = maxRetries s \<and>
   isProcessing (addLocations e ls s) = isProcessing s \<and>
   db (addLocations e ls s) = db s \<and>
   \<not> isOnline (addLocations e ls s)"
proof (induction ls arbitrary: s)
  case Nil
  then show ?case by simp
next
  case (Cons x ls)
  obtain now l where x: "x = (now, l)" by (cases x)
  from Cons.prems have "\<not> isOnline (addLocation e now l s)"
    by (simp add: addLocation_offline)
  from Cons.IH [OF this] Cons.prems show ?case
    by (simp add: x addLocation_offline)
qed

text \<open>
  Claim C3, as the code has it. Records are enqueued while offline; then the
  \<^verbatim>\<open>online\<close> event fires. If the failed delivery attempts of the drain that it
  starts stay within the retry budget (no more than \<open>maxRetries - retryCount\<close> of them; in
  particular when every attempt succeeds), the drain delivers everything that was queued,
  each record once, in enqueue order, and leaves the in-memory queue empty.
\<close>

theorem offline_queue_drains_in_order:
  assumes "\<not> isOnline s" and "\<not> isProcessing s"
    and "failuresOf (trace (onOnline e (addLocations e ls s))) + retryCount s
           \<le> failuresOf (trace s) + maxRetries s"
  shows "deliveredOf (trace (onOnline e (addLocations e ls s))) =
           deliveredOf (trace s) @ queue s @ map (\<lambda>(now, l). locationData now l) ls \<and>
         queue (onOnline e (addLocations e ls s)) = []"
proof -
  let ?s1 = "addLocations e ls s"
  let ?s2 = "?s1\<lparr>isOnline := True, isProcessing := True\<rparr>"
  note off = addLocations_offline [OF assms(1), of e ls]
  show ?thesis
  proof (cases "queue ?s1 = []")
    case True
    with off show ?thesis by (simp add: onOnline_def processQueue_def)
  next
    case False
    with off assms(2) have run: "onOnline e ?s1 = (drainLoop e ?s2)\<lparr>isProcessing := False, retryCount := 0\<rparr>"
      by (auto simp: onOnline_def processQueue_def)
    from assms(3) off have "failuresOf (trace (drainLoop e ?s2)) + retryCount ?s2
        \<le> failuresOf (trace ?s2) + maxRetries ?s2"
      by (simp add: run)
    then have "deliveredOf (trace (drainLoop e ?s2)) = deliveredOf (trace ?s2) @ queue ?s2"
      by (rule drainLoop_delivered)
    with off show ?thesis by (simp add: run drainLoop_queue)
  qed
qed

text \<open>
  Two samples enqueued offline, a sink that fails twice and then accepts: both records are
  delivered in order.
\<close>

theorem offline_queue_drains_in_order_witness:
  "\<not> isOnline (newLocationManager False None) \<and>
   \<not> isProcessing (newLocationManager False None) \<and>
   failuresOf (trace (onOnline (sinkAfter 2)
     (addLocations (sinkAfter 2) [(5, sampleA), (6, sampleB)] (newLocationManager False None)))) = 2 \<and>
   deliveredOf (trace (onOnline (sinkAfter 2)
     (addLocations (sinkAfter 2) [(5, sampleA), (6, sampleB)] (newLocationManager False None)))) =
     [locationData 5 sampleA, locationData 6 sampleB] \<and>
   queue (onOnline (sinkAfter 2)
     (addLocations (sinkAfter 2) [(5, sampleA), (6, sampleB)] (newLocationManager False None))) = []"
proof -
  have f: "failuresOf (trace (onOnline (sinkAfter 2)
     (addLocations (sinkAfter 2) [(5, sampleA), (6, sampleB)] (newLocationManager False None)))) = 2"
    by (simp add: scenario_defs run_defs)
  from offline_queue_drains_in_order [of "newLocationManager False None" "sinkAfter 2"
      "[(5, sampleA), (6, sampleB)]"] f
  show ?thesis by (simp add: newLocationManager_def)
qed

text \<open>
  One sample enqueued offline, a sink that fails four times and accepts from then on: the
  fourth failure finds the budget used up, the record leaves the queue undelivered, and
  the drain ends with nothing delivered although the next attempt would have succeeded.
\<close>

theorem offline_queue_drains_counterexample:
  "queue (addLocation (sinkAfter 4) 5 sampleA (initDB (sinkAfter 4) (newLocationManager False None))) =
     [locationData 5 sampleA] \<and>
   deliver (sinkAfter 4) 4 (locationData 5 sampleA) \<and>
   deliveredOf (trace (onOnline (sinkAfter 4)
     (addLocation (sinkAfter 4) 5 sampleA (initDB (sinkAfter 4) (newLocationManager False None))))) =
     [] \<and>
   queue (onOnline (sinkAfter 4)
     (addLocation (sinkAfter 4) 5 sampleA (initDB (sinkAfter 4) (newLocationManager False None)))) =
     []"
  by (simp add: scenario_defs run_defs)

section \<open>Backoff\<close>

text \<open>
  Claim C5, as the code has it. Within one drain the \<open>k\<close>-th failed attempt, counted by
  \<open>retryCount\<close> over the whole drain (a success does not reset it), is followed for
  \<open>k \<le> maxRetries\<close> by a suspension of exactly \<open>2 ^ k * 1000\<close> ms; there is no cap
  besides the budget itself, and a failed attempt beyond the budget is followed by no
  suspension at all. So the suspensions of a drain that saw \<open>F\<close> failures are
  \<open>2 ^ k * 1000\<close> for \<open>k\<close> from \<open>retryCount + 1\<close> to \<open>min (retryCount + F) maxRetries\<close>,
  strictly increasing. No loop iteration lowers \<open>retryCount\<close>; it is reset to zero when
  the drain ends, which is when the in-memory queue is empty.
\<close>

theorem backoff_schedule:
  assumes "\<not> isProcessing s" and "isOnline s" and "queue s \<noteq> []"
    and "retryCount s \<le> maxRetries s"
  shows "delaysOf (trace (processQueue e s)) =
           delaysOf (trace s) @
           map (\<lambda>k. 2 ^ k * 1000)
             [Suc (retryCount s) ..<
              Suc (min (retryCount s +
                          (failuresOf (trace (processQueue e s)) - failuresOf (trace s)))
                       (maxRetries s))] \<and>
         retryCount s \<le> retryCount (drainStep e s) \<and>
         queue (processQueue e s) = [] \<and> retryCount (processQueue e s) = 0"
proof -
  let ?s1 = "s\<lparr>isProcessing := True\<rparr>"
  from assms have run: "processQueue e s = (drainLoop e ?s1)\<lparr>isProcessing := False, retryCount := 0\<rparr>"
    by (simp add: processQueue_def)
  from assms(4) have "retryCount ?s1 \<le> maxRetries ?s1" by simp
  from drainLoop_retryCount [OF this, of e] drainLoop_delays [of e ?s1]
  have "delaysOf (trace (processQueue e s)) =
           delaysOf (trace s) @
           map (\<lambda>k. 2 ^ k * 1000)
             [Suc (retryCount s) ..<
              Suc (min (retryCount s +
                          (failuresOf (trace (processQueue e s)) - failuresOf (trace s)))
                       (maxRetries s))]"
    by (simp add: run)
  then show ?thesis
    by (simp add: run drainLoop_queue drainStep_retryCount_mono)
qed

text \<open>The drain of \<open>queuedAB\<close> against a sink that fails twice: suspensions of 2 s and 4 s.\<close>

theorem backoff_schedule_witness:
  "\<not> isProcessing (queuedAB\<lparr>isOnline := True\<rparr>) \<and> isOnline (queuedAB\<lparr>isOnline := True\<rparr>) \<and>
   queue (queuedAB\<lparr>isOnline := True\<rparr>) \<noteq> [] \<and>
   retryCount (queuedAB\<lparr>isOnline := True\<rparr>) \<le> maxRetries (queuedAB\<lparr>isOnline := True\<rparr>) \<and>
   failuresOf (trace (processQueue (sinkAfter 2) (queuedAB\<lparr>isOnline := True\<rparr>))) = 2 \<and>
   delaysOf (trace (processQueue (sinkAfter 2) (queuedAB\<lparr>isOnline := True\<rparr>))) = [2000, 4000] \<and>
   retryCount (processQueue (sinkAfter 2) (queuedAB\<lparr>isOnline := True\<rparr>)) = 0"
proof -
  have h: "\<not> isProcessing (queuedAB\<lparr>isOnline := True\<rparr>)" "isOnline (queuedAB\<lparr>isOnline := True\<rparr>)"
    "queue (queuedAB\<lparr>isOnline := True\<rparr>) \<noteq> []"
    "retryCount (queuedAB\<lparr>isOnline := True\<rparr>) \<le> maxRetries (queuedAB\<lparr>isOnline := True\<rparr>)"
    "retryCount (queuedAB\<lparr>isOnline := True\<rparr>) = 0" "maxRetries (queuedAB\<lparr>isOnline := True\<rparr>) = 3"
    "trace (queuedAB\<lparr>isOnline := True\<rparr>) = []"
    by (simp_all add: scenario_defs run_defs)
  have f: "failuresOf (trace (processQueue (sinkAfter 2) (queuedAB\<lparr>isOnline := True\<rparr>))) = 2"
    by (simp add: scenario_defs run_defs)
  have u: "[Suc 0..<3] = [1, 2]" by (simp add: upt_rec)
  from backoff_schedule [OF h(1-4), of "sinkAfter 2"] h f u
  show ?thesis by simp
qed

text \<open>
  With the sink down, the drain of \<open>queuedAB\<close> sees five failed attempts in a row but
  suspends only after the first three: the fourth and fifth failures are followed at once
  by the next attempt or the end of the drain.
\<close>

theorem backoff_schedule_counterexample:
  "failuresOf (trace (onOnline sinkDown queuedAB)) = 5 \<and>
   delaysOf (trace (onOnline sinkDown queuedAB)) = [2000, 4000, 8000]"
  by (simp add: scenario_defs run_defs)

section \<open>Capacity\<close>

text \<open>Keeping the last \<open>n\<close> elements, then appending and keeping the last \<open>n\<close> again.\<close>

lemma keep_last_append:
  "drop (length (drop (length xs - n) xs) + length ys - n) (drop (length xs - n) xs @ ys) =
   drop (length xs + length ys - n) (xs @ ys)"
proof (cases "length xs \<le> n")
  case True
  then show ?thesis by simp
next
  case False
  then have "length xs - n + (n + length ys - n) = length xs + length ys - n" by simp
  with False show ?thesis by (simp add: min_def add.commute)
qed

lemma saveToIndexedDB_ok:
  "db s \<Longrightarrow> \<forall>n. dbOk e n \<Longrightarrow>
   stored (saveToIndexedDB e l s) = Some (drop (length (snapshot s) + 1 - 100) (snapshot s @ [l]))"
  by (simp add: saveToIndexedDB_def Let_def)

lemma addLocation_offline_snapshot:
  "\<not> isOnline s \<Longrightarrow> db s \<Longrightarrow> \<forall>n. dbOk e n \<Longrightarrow>
   snapshot (addLocation e now l s) =
     drop (length (snapshot s) + 1 - 100) (snapshot s @ [locationData now l])"
  by (simp add: addLocation_offline snapshot_def saveToIndexedDB_def Let_def)

lemma addLocations_offline_snapshot:
  "\<not> isOnline s \<Longrightarrow> db s \<Longrightarrow> \<forall>n. dbOk e n \<Longrightarrow> ls \<noteq> [] \<Longrightarrow>
   snapshot (addLocations e ls s) =
     drop (length (snapshot s) + length ls - 100)
       (snapshot s @ map (\<lambda>(now, l). locationData now l) ls)"
proof (induction ls arbitrary: s)
  case Nil
  then show ?case by simp
next
  case (Cons x ls)
  obtain now l where x: "x = (now, l)" by (cases x)
  let ?s1 = "addLocation e now l s"
  let ?r = "locationData now l"
  from Cons.prems have off: "\<not> isOnline ?s1" "db ?s1"
    by (simp_all add: addLocation_offline)
  from Cons.prems have s1: "snapshot ?s1 =
      drop (length (snapshot s @ [?r]) - 100) (snapshot s @ [?r])"
    by (simp add: addLocation_offline_snapshot)
  show ?case
  proof (cases "ls = []")
    case True
    with s1 show ?thesis by (simp add: x)
  next
    case False
    from Cons.IH [OF off Cons.prems(3) False]
    have "snapshot (addLocations e ls ?s1) =
        drop (length (snapshot ?s1) + length (map (\<lambda>(now, l). locationData now l) ls) - 100)
          (snapshot ?s1 @ map (\<lambda>(now, l). locationData now l) ls)" by simp
    also have "\<dots> = drop (length (snapshot s @ [?r]) + length (map (\<lambda>(now, l). locationData now l) ls) - 100)
          ((snapshot s @ [?r]) @ map (\<lambda>(now, l). locationData now l) ls)"
      unfolding s1 by (rule keep_last_append)
    finally show ?thesis by (simp add: x)
  qed
qed

text \<open>Steps of an offline page: what they do to the queue and to the snapshot.\<close>

lemma afterSave_offline: "\<not> isOnline s \<Longrightarrow> afterSave e s = scheduleBackgroundSync e s"
  by (simp add: afterSave_def)

lemma step_offline:
  "\<not> isOnline (page y) \<Longrightarrow>
   \<not> isOnline (page (step e a y)) \<and>
   queue (page (step e a y)) = queue (page y) @ enqueued [a]"
proof (cases a)
  case (Call now l)
  assume "\<not> isOnline (page y)"
  then show ?thesis by (simp add: Call Let_def afterSave_offline)
next
  case GetDone
  assume off: "\<not> isOnline (page y)"
  show ?thesis
  proof (cases "gets y")
    case Nil
    with off show ?thesis by (simp add: GetDone)
  next
    case (Cons t g)
    obtain ld r where t: "t = (ld, r)" by (cases t)
    from off show ?thesis
      by (cases r) (simp_all add: GetDone Cons t Let_def afterSave_offline)
  qed
next
  case PutDone
  assume "\<not> isOnline (page y)"
  then show ?thesis by (simp add: PutDone afterSave_offline)
qed

lemma enqueued_append [simp]: "enqueued (as @ bs) = enqueued as @ enqueued bs"
  by (induction as rule: enqueued.induct) simp_all

lemma run_offline:
  "\<not> isOnline (page y) \<Longrightarrow>
   \<not> isOnline (page (run e acts y)) \<and>
   queue (page (run e acts y)) = queue (page y) @ enqueued acts"
proof (induction acts arbitrary: y)
  case Nil
  then show ?case by simp
next
  case (Cons a acts)
  from step_offline [OF Cons.prems, of e a]
  have s: "\<not> isOnline (page (step e a y))"
    "queue (page (step e a y)) = queue (page y) @ enqueued [a]"
    by simp_all
  have "enqueued (a # acts) = enqueued [a] @ enqueued acts"
    using enqueued_append [of "[a]" acts] by simp
  with Cons.IH [OF s(1)] s(2) show ?case by simp
qed

text \<open>No step of an offline page writes more than 100 records.\<close>

lemma step_offline_bound:
  "\<not> isOnline (page y) \<Longrightarrow> length (snapshot (page y)) \<le> 100 \<Longrightarrow>
   length (snapshot (page (step e a y))) \<le> 100"
proof (cases a)
  case (Call now l)
  assume "\<not> isOnline (page y)" "length (snapshot (page y)) \<le> 100"
  then show ?thesis by (simp add: Call Let_def afterSave_offline snapshot_def scheduleBackgroundSync_def)
next
  case GetDone
  assume off: "\<not> isOnline (page y)" and le: "length (snapshot (page y)) \<le> 100"
  show ?thesis
  proof (cases "gets y")
    case Nil
    with le show ?thesis by (simp add: GetDone)
  next
    case (Cons t g)
    obtain ld r where t: "t = (ld, r)" by (cases t)
    from off le show ?thesis
      by (cases r)
        (simp_all add: GetDone Cons t Let_def afterSave_offline snapshot_def
          scheduleBackgroundSync_def)
  qed
next
  case PutDone
  assume "\<not> isOnline (page y)" "length (snapshot (page y)) \<le> 100"
  then show ?thesis
    by (simp add: PutDone afterSave_offline snapshot_def scheduleBackgroundSync_def)
qed

lemma run_offline_bound:
  "\<not> isOnline (page y) \<Longrightarrow> length (snapshot (page y)) \<le> 100 \<Longrightarrow>
   length (snapshot (page (run e acts y))) \<le> 100"
proof (induction acts arbitrary: y)
  case Nil
  then show ?case by simp
next
  case (Cons a acts)
  from step_offline [OF Cons.prems(1), of e a] have "\<not> isOnline (page (step e a y))" by simp
  moreover from Cons.prems have "length (snapshot (page (step e a y))) \<le> 100"
    by (rule step_offline_bound)
  ultimately show ?case using Cons.IH by simp
qed

text \<open>A call followed at once by its two completions is \<open>addLocation\<close>.\<close>

lemma step_idle [simp]: "step e GetDone (idle s) = idle s" "step e PutDone (idle s) = idle s"
  by (simp_all add: idle_def)

lemma step_awaited:
  "step e PutDone (step e GetDone (step e (Call now l) (idle s))) = idle (addLocation e now l s)"
proof -
  let ?ld = "locationData now l"
  let ?s1 = "s\<lparr>queue := queue s @ [?ld]\<rparr>"
  consider (nodb) "\<not> db s" | (getfail) "db s" "\<not> dbOk e (dbOps s)"
    | (ok) "db s" "dbOk e (dbOps s)"
    by blast
  then show ?thesis
  proof cases
    case nodb
    then have c: "step e (Call now l) (idle s) = idle (afterSave e ?s1)"
      by (simp add: idle_def Let_def)
    from nodb have "addLocation e now l s = afterSave e ?s1"
      by (simp add: addLocation_def saveToIndexedDB_def afterSave_def Let_def)
    then show ?thesis unfolding c step_idle by simp
  next
    case getfail
    let ?s2 = "?s1\<lparr>dbOps := dbOps s + 1\<rparr>"
    from getfail have c: "step e (Call now l) (idle s) =
        \<lparr>page = ?s2, gets = [(?ld, None)], puts = 0\<rparr>"
      by (simp add: idle_def Let_def)
    have g: "step e GetDone \<lparr>page = ?s2, gets = [(?ld, None)], puts = 0\<rparr> = idle (afterSave e ?s2)"
      by (simp add: idle_def)
    from getfail have "addLocation e now l s = afterSave e ?s2"
      by (simp add: addLocation_def saveToIndexedDB_def afterSave_def Let_def)
    then show ?thesis unfolding c g step_idle by simp
  next
    case ok
    let ?s2 = "?s1\<lparr>dbOps := dbOps s + 1\<rparr>"
    let ?s3 = "saveToIndexedDB e ?ld ?s1"
    from ok have c: "step e (Call now l) (idle s) =
        \<lparr>page = ?s2, gets = [(?ld, Some (snapshot s))], puts = 0\<rparr>"
      by (simp add: idle_def Let_def snapshot_def)
    from ok have g: "step e GetDone \<lparr>page = ?s2, gets = [(?ld, Some (snapshot s))], puts = 0\<rparr> =
        \<lparr>page = ?s3, gets = [], puts = 1\<rparr>"
      by (simp add: saveToIndexedDB_def Let_def snapshot_def)
    have p: "step e PutDone \<lparr>page = ?s3, gets = [], puts = 1\<rparr> = idle (afterSave e ?s3)"
      by (simp add: idle_def)
    have "addLocation e now l s = afterSave e ?s3"
      by (simp add: addLocation_def afterSave_def Let_def)
    then show ?thesis unfolding c g p by simp
  qed
qed

lemma run_awaited: "run e (awaited ls) (idle s) = idle (addLocations e ls s)"
proof (induction ls arbitrary: s)
  case Nil
  then show ?case by simp
next
  case (Cons x ls)
  obtain now l where x: "x = (now, l)" by (cases x)
  have "run e (awaited (x # ls)) (idle s) =
      run e (awaited ls) (step e PutDone (step e GetDone (step e (Call now l) (idle s))))"
    unfolding x by (simp only: awaited.simps run.simps)
  also have "\<dots> = run e (awaited ls) (idle (addLocation e now l s))"
    by (simp only: step_awaited)
  also have "\<dots> = idle (addLocations e ls (addLocation e now l s))"
    by (rule Cons.IH)
  finally show ?case by (simp add: x)
qed

lemma enqueued_awaited: "enqueued (awaited ls) = map (\<lambda>(now, l). locationData now l) ls"
  by (induction ls rule: awaited.induct) simp_all

text \<open>Two offline enqueues whose saves overlap: both read the empty snapshot, and the second
  write replaces the first. The queue holds both records, the snapshot only the second.\<close>

lemma overlapping_saves_lose_a_record:
  "queue (page (run sinkDown [Call 5 sampleA, Call 6 sampleB, GetDone, GetDone, PutDone, PutDone]
     (idle (initDB sinkDown (newLocationManager False None))))) =
     [locationData 5 sampleA, locationData 6 sampleB] \<and>
   snapshot (page (run sinkDown [Call 5 sampleA, Call 6 sampleB, GetDone, GetDone, PutDone, PutDone]
     (idle (initDB sinkDown (newLocationManager False None))))) = [locationData 6 sampleB]"
  by (simp add: scenario_defs idle_def afterSave_def scheduleBackgroundSync_def snapshot_def
      Let_def)

text \<open>
  Claim C2, as the code has it. The bound of 100 lives in \<^verbatim>\<open>saveToIndexedDB\<close> only,
  and every save applies it on its own. On an offline page, however the enqueues and the
  completions of their saves are interleaved:
  \<^item> the in-memory queue, whose length \<^verbatim>\<open>getQueueLength\<close> reports, keeps every
    enqueued record in call order: it has no capacity;
  \<^item> a snapshot of at most 100 records stays one of at most 100 records;
  \<^item> a save whose read has resolved writes the last 100 of the records it read, followed
    by its own.

  When the calls do not overlap, the store is open and its requests succeed, the snapshot
  after the enqueues is exactly the last 100 of what it held followed by the new records:
  the oldest are evicted.
\<close>

theorem snapshot_capped_queue_unbounded:
  assumes "\<not> isOnline (page y)"
  shows "queue (page (run e acts y)) = queue (page y) @ enqueued acts \<and>
         getQueueLength (page (run e acts y)) = getQueueLength (page y) + length (enqueued acts) \<and>
         (length (snapshot (page y)) \<le> 100 \<longrightarrow>
            length (snapshot (page (run e acts y))) \<le> 100) \<and>
         (gets y = (ld, Some q0) # g \<and> dbOk e (dbOps (page y)) \<longrightarrow>
            stored (page (step e GetDone y)) =
              Some (drop (length q0 + 1 - 100) (q0 @ [ld]))) \<and>
         (y = idle s \<and> db s \<and> (\<forall>n. dbOk e n) \<and> ls \<noteq> [] \<longrightarrow>
            snapshot (page (run e (awaited ls) y)) =
              drop (length (snapshot s) + length ls - 100)
                (snapshot s @ enqueued (awaited ls)))"
proof -
  note off = run_offline [OF assms, of e acts]
  have 1: "queue (page (run e acts y)) = queue (page y) @ enqueued acts"
    using off by simp
  then have 2: "getQueueLength (page (run e acts y)) =
      getQueueLength (page y) + length (enqueued acts)"
    by (simp add: getQueueLength_def)
  have 3: "length (snapshot (page y)) \<le> 100 \<longrightarrow>
            length (snapshot (page (run e acts y))) \<le> 100"
    using run_offline_bound [OF assms] by blast
  have 4: "gets y = (ld, Some q0) # g \<and> dbOk e (dbOps (page y)) \<longrightarrow>
            stored (page (step e GetDone y)) =
              Some (drop (length q0 + 1 - 100) (q0 @ [ld]))"
    by (simp add: Let_def)
  have 5: "snapshot (page (run e (awaited ls) y)) =
              drop (length (snapshot s) + length ls - 100)
                (snapshot s @ enqueued (awaited ls))"
    if h: "y = idle s \<and> db s \<and> (\<forall>n. dbOk e n) \<and> ls \<noteq> []"
  proof -
    from h assms have o: "\<not> isOnline s" by (simp add: idle_def)
    from h have "page (run e (awaited ls) y) = addLocations e ls s"
      by (simp add: run_awaited) (simp add: idle_def)
    with addLocations_offline_snapshot [OF o, of e ls] h show ?thesis
      by (simp add: enqueued_awaited)
  qed
  from 1 2 3 4 5 show ?thesis by blast
qed

text \<open>
  On a fresh offline page with the store open: two enqueues whose saves overlap, one save
  on its own, and 101 enqueues that do not overlap. In the last run the snapshot holds the
  last 100 records and the reported queue length is 101.
\<close>

theorem snapshot_capped_queue_unbounded_witness:
  "\<not> isOnline (page (idle (initDB sinkDown (newLocationManager False None)))) \<and>
   length (snapshot (page (idle (initDB sinkDown (newLocationManager False None))))) \<le> 100 \<and>
   queue (page (run sinkDown [Call 5 sampleA, Call 6 sampleB, GetDone, GetDone, PutDone, PutDone]
     (idle (initDB sinkDown (newLocationManager False None))))) =
     [locationData 5 sampleA, locationData 6 sampleB] \<and>
   length (snapshot (page (run sinkDown
     [Call 5 sampleA, Call 6 sampleB, GetDone, GetDone, PutDone, PutDone]
     (idle (initDB sinkDown (newLocationManager False None)))))) \<le> 100 \<and>
   stored (page (step sinkDown GetDone (step sinkDown (Call 5 sampleA)
     (idle (initDB sinkDown (newLocationManager False None)))))) = Some [locationData 5 sampleA] \<and>
   db (initDB sinkDown (newLocationManager False None)) \<and> (\<forall>n. dbOk sinkDown n) \<and>
   snapshot (page (run sinkDown (awaited ((1, sampleB) # replicate 100 (5, sampleA)))
     (idle (initDB sinkDown (newLocationManager False None))))) =
     replicate 100 (locationData 5 sampleA) \<and>
   getQueueLength (page (run sinkDown (awaited ((1, sampleB) # replicate 100 (5, sampleA)))
     (idle (initDB sinkDown (newLocationManager False None))))) = 101"
proof -
  let ?s = "initDB sinkDown (newLocationManager False None)"
  have h: "\<not> isOnline (page (idle ?s))" "db ?s" "\<forall>n. dbOk sinkDown n"
    "snapshot ?s = []" "queue ?s = []" "page (idle ?s) = ?s"
    by (simp_all add: idle_def initDB_def newLocationManager_def sinkDown_def snapshot_def)
  have e1: "enqueued [Call 5 sampleA, Call 6 sampleB, GetDone, GetDone, PutDone, PutDone] =
      [locationData 5 sampleA, locationData 6 sampleB]"
    by simp
  have e2: "enqueued (awaited ((1, sampleB) # replicate 100 (5, sampleA))) =
      locationData 1 sampleB # replicate 100 (locationData 5 sampleA)"
    by (simp add: enqueued_awaited)
  let ?y = "step sinkDown (Call 5 sampleA) (idle ?s)"
  have c: "\<not> isOnline (page ?y)" "gets ?y = [(locationData 5 sampleA, Some [])]"
    "dbOk sinkDown (dbOps (page ?y))"
    by (simp_all add: idle_def initDB_def newLocationManager_def sinkDown_def snapshot_def
        Let_def)
  from snapshot_capped_queue_unbounded [OF c(1), of sinkDown _ "locationData 5 sampleA" "[]" "[]"]
    c(2,3)
  have p: "stored (page (step sinkDown GetDone ?y)) = Some [locationData 5 sampleA]"
    by simp
  from snapshot_capped_queue_unbounded [OF h(1), of sinkDown
      "[Call 5 sampleA, Call 6 sampleB, GetDone, GetDone, PutDone, PutDone]"]
    snapshot_capped_queue_unbounded [OF h(1), of sinkDown
      "awaited ((1, sampleB) # replicate 100 (5, sampleA))" _ _ _ ?s
      "(1, sampleB) # replicate 100 (5, sampleA)"]
    h e1 e2 p
  show ?thesis by (simp add: getQueueLength_def)
qed

text \<open>
  The claim as stated, at 101 samples enqueued offline one after the other: after
  \<open>100 + 1\<close> enqueues \<^verbatim>\<open>getQueueLength\<close> reports 101, and the oldest record is
  still at the head of the queue.
\<close>

theorem queue_capacity_counterexample:
  "getQueueLength (addLocations sinkDown ((1, sampleB) # replicate 100 (5, sampleA))
     (initDB sinkDown (newLocationManager False None))) = 101 \<and>
   hd (queue (addLocations sinkDown ((1, sampleB) # replicate 100 (5, sampleA))
     (initDB sinkDown (newLocationManager False None)))) = locationData 1 sampleB"
proof -
  have "\<not> isOnline (initDB sinkDown (newLocationManager False None))"
    by (simp add: initDB_def newLocationManager_def sinkDown_def)
  from addLocations_offline [OF this, of sinkDown "(1, sampleB) # replicate 100 (5, sampleA)"]
  show ?thesis
    by (simp add: getQueueLength_def initDB_def newLocationManager_def sinkDown_def)
qed

section \<open>The background sync of the service worker\<close>

lemma map_Sent [simp]:
  "deliveredOf (map Sent xs) = xs" "failuresOf (map Sent xs) = 0" "delaysOf (map Sent xs) = []"
  by (induction xs) simp_all

lemma sendAll_unchanged [simp]:
  "stored (snd (sendAll e q s)) = stored s"
  "dbOps (snd (sendAll e q s)) = dbOps s"
  "queue (snd (sendAll e q s)) = queue s"
  "retryCount (snd (sendAll e q s)) = retryCount s"
  by (induction q arbitrary: s, simp_all)+

lemma sendAll_delays [simp]: "delaysOf (trace (snd (sendAll e q s))) = delaysOf (trace s)"
  by (induction q arbitrary: s) simp_all

text \<open>
  The loop of the worker, on whatever list it is given: it sends a prefix of the list, one
  attempt per record, and stops at the first refusal.
\<close>

lemma sendAll_prefix:
  "k \<le> length q \<Longrightarrow> \<forall>j<k. deliver e (attempts s + j) (q ! j) \<Longrightarrow>
   k < length q \<longrightarrow> \<not> deliver e (attempts s + k) (q ! k) \<Longrightarrow>
   fst (sendAll e q s) = (k = length q) \<and>
   trace (snd (sendAll e q s)) =
     trace s @ map Sent (take k q) @ (if k < length q then [Failed (q ! k)] else [])"
proof (induction q arbitrary: s k)
  case Nil
  then show ?case by simp
next
  case (Cons l q)
  show ?case
  proof (cases k)
    case 0
    with Cons.prems show ?thesis by simp
  next
    case (Suc k')
    let ?s1 = "s\<lparr>attempts := attempts s + 1, trace := trace s @ [Sent l]\<rparr>"
    from Cons.prems Suc have ok: "deliver e (attempts s) l" by auto
    from Cons.prems Suc have 1: "k' \<le> length q" by simp
    from Cons.prems Suc have 2: "\<forall>j<k'. deliver e (attempts ?s1 + j) (q ! j)" by auto
    from Cons.prems Suc have 3: "k' < length q \<longrightarrow> \<not> deliver e (attempts ?s1 + k') (q ! k')"
      by auto
    from Cons.IH [OF 1 2 3] ok Suc show ?thesis by simp
  qed
qed





section \<open>Counting attempts\<close>

text \<open>
  Claim C6, as the code has it. A queued record carries no attempt counter: enqueueing
  adds the properties \<^verbatim>\<open>timestamp\<close> and \<^verbatim>\<open>user_id\<close> only, and a failed attempt
  puts the very same record back. Failures are counted in the manager's \<open>retryCount\<close>
  alone. A record enqueued offline whose delivery fails twice and succeeds on the third
  attempt is delivered once, unchanged, after suspensions of 2 s and 4 s; the queue is
  then empty and \<open>retryCount\<close> is back to zero.
\<close>

theorem third_attempt_delivers_once:
  assumes "\<not> isOnline s" and "\<not> isProcessing s" and "queue s = []"
    and "retryCount s = 0" and "2 \<le> maxRetries s"
    and "\<not> deliver e (attempts s) (locationData now l)"
    and "\<not> deliver e (attempts s + 1) (locationData now l)"
    and "deliver e (attempts s + 2) (locationData now l)"
  shows "trace (onOnline e (addLocation e now l s)) =
           trace s @ [Failed (locationData now l), Delay 2000,
                      Failed (locationData now l), Delay 4000, Sent (locationData now l)] \<and>
         queue (onOnline e (addLocation e now l s)) = [] \<and>
         retryCount (onOnline e (addLocation e now l s)) = 0 \<and>
         map_of (locationData now l) ''attemptCount'' = map_of l ''attemptCount''"
proof -
  let ?r = "locationData now l"
  let ?s1 = "addLocation e now l s"
  from assms have s1: "queue ?s1 = [?r]" "trace ?s1 = trace s" "retryCount ?s1 = 0"
    "maxRetries ?s1 = maxRetries s" "attempts ?s1 = attempts s" "\<not> isProcessing ?s1"
    by (simp_all add: addLocation_offline)
  let ?a = "?s1\<lparr>isOnline := True, isProcessing := True\<rparr>"
  let ?b = "drainStep e ?a"
  let ?c = "drainStep e ?b"
  let ?d = "drainStep e ?c"
  from s1 assms have b: "queue ?b = [?r]" "retryCount ?b = 1" "attempts ?b = attempts s + 1"
    "trace ?b = trace s @ [Failed ?r, Delay 2000]" "maxRetries ?b = maxRetries s"
    by (simp_all add: drainStep_def sendLocation_def)
  from b assms have c: "queue ?c = [?r]" "retryCount ?c = 2" "attempts ?c = attempts s + 2"
    "trace ?c = trace s @ [Failed ?r, Delay 2000, Failed ?r, Delay 4000]"
    by (simp_all add: drainStep_def sendLocation_def)
  from c assms have d: "queue ?d = []"
    "trace ?d = trace s @ [Failed ?r, Delay 2000, Failed ?r, Delay 4000, Sent ?r]"
    by (simp_all add: drainStep_def sendLocation_def)
  from s1 b c d have loop: "drainLoop e ?a = ?d"
    by (simp add: drainLoop.simps [of e ?a] drainLoop.simps [of e ?b]
        drainLoop.simps [of e ?c] drainLoop.simps [of e ?d])
  from s1 have "onOnline e ?s1 = (drainLoop e ?a)\<lparr>isProcessing := False, retryCount := 0\<rparr>"
    by (simp add: onOnline_def processQueue_def)
  with loop d show ?thesis
    by (simp add: locationData_def update_conv')
qed

text \<open>The theorem at \<open>sampleA\<close>, enqueued at time 5 on a fresh offline page.\<close>

theorem third_attempt_delivers_once_witness:
  "\<not> isOnline (newLocationManager False None) \<and>
   \<not> deliver (sinkAfter 2) 0 (locationData 5 sampleA) \<and>
   \<not> deliver (sinkAfter 2) 1 (locationData 5 sampleA) \<and>
   deliver (sinkAfter 2) 2 (locationData 5 sampleA) \<and>
   trace (onOnline (sinkAfter 2) (addLocation (sinkAfter 2) 5 sampleA (newLocationManager False None))) =
     [Failed (locationData 5 sampleA), Delay 2000, Failed (locationData 5 sampleA), Delay 4000,
      Sent (locationData 5 sampleA)] \<and>
   queue (onOnline (sinkAfter 2) (addLocation (sinkAfter 2) 5 sampleA (newLocationManager False None))) = []"
proof -
  have d: "deliver (sinkAfter 2) n r = (2 \<le> n)" for n r
    by (simp add: sinkAfter_def)
  from third_attempt_delivers_once [of "newLocationManager False None" "sinkAfter 2" 5 sampleA] d
  show ?thesis by (simp add: newLocationManager_def)
qed

text \<open>
  In that run the record that reaches the sink on the third attempt has no
  \<^verbatim>\<open>attemptCount\<close> property at all, let alone the value 3.
\<close>

theorem attempt_count_counterexample:
  "deliveredOf (trace (onOnline (sinkAfter 2)
     (addLocation (sinkAfter 2) 5 sampleA (newLocationManager False None)))) =
     [locationData 5 sampleA] \<and>
   map_of (locationData 5 sampleA) ''attemptCount'' = None"
  by (simp add: scenario_defs run_defs)

section \<open>Going online\<close>

lemma processQueue_syncPending [simp]: "syncPending (processQueue e s) = syncPending s"
  by (simp add: processQueue_def)

lemma processQueue_isOnline [simp]: "isOnline (processQueue e s) = isOnline s"
  by (simp add: processQueue_def)

text \<open>
  Claim C8, as the code has it. The \<^verbatim>\<open>online\<close> listener sets the flag and calls
  \<^verbatim>\<open>processQueue\<close>, which drains the in-memory queue unless a drain is already
  running. It leaves the background-sync registration as it found it: one armed while
  offline is still pending afterwards.
\<close>

theorem online_keeps_sync_registration:
  "syncPending (onOnline e s) = syncPending s \<and> isOnline (onOnline e s) \<and>
   (\<not> isProcessing s \<longrightarrow> queue (onOnline e s) = [])"
  by (simp add: onOnline_def) (simp add: processQueue_def drainLoop_queue)

text \<open>The theorem at \<open>queuedAB\<close>, whose two offline enqueues armed the registration.\<close>

theorem online_keeps_sync_registration_witness:
  "syncPending queuedAB \<and> \<not> isProcessing queuedAB \<and>
   syncPending (onOnline sinkUp queuedAB) \<and> queue (onOnline sinkUp queuedAB) = []"
proof -
  have h: "syncPending queuedAB" "\<not> isProcessing queuedAB"
    by (simp_all add: scenario_defs run_defs)
  from online_keeps_sync_registration [of sinkUp queuedAB] h show ?thesis by simp
qed

text \<open>
  A fresh page enqueues one sample offline, which arms the registration; the page goes
  online and delivers the record itself; the registration is still pending.
\<close>

theorem sync_registration_counterexample:
  "\<not> syncPending (initDB sinkUp (newLocationManager False None)) \<and>
   syncPending (addLocation sinkUp 5 sampleA (initDB sinkUp (newLocationManager False None))) \<and>
   syncPending (onOnline sinkUp
     (addLocation sinkUp 5 sampleA (initDB sinkUp (newLocationManager False None)))) \<and>
   deliveredOf (trace (onOnline sinkUp
     (addLocation sinkUp 5 sampleA (initDB sinkUp (newLocationManager False None))))) =
     [locationData 5 sampleA]"
  by (simp add: scenario_defs run_defs)

section \<open>Order and duplicates\<close>

lemma drainLoop_done: "queue s = [] \<Longrightarrow> drainLoop e s = s"
  by (simp add: drainLoop.simps)

lemma addLocation_queue_parked:
  "\<not> isOnline s \<or> isProcessing s \<Longrightarrow>
   queue (addLocation e now l s) = queue s @ [locationData now l]"
  by (auto simp: addLocation_def Let_def processQueue_def)





section \<open>What is queued and sent\<close>

text \<open>A drain delivers nothing but records that it found in the queue.\<close>

lemma drainStep_delivered_subset:
  "set (deliveredOf (trace (drainStep e s))) \<union> set (queue (drainStep e s))
     \<subseteq> set (deliveredOf (trace s)) \<union> set (queue s)"
  by (auto simp: drainStep_def Let_def split: list.splits)

lemma drainLoop_delivered_subset:
  "set (deliveredOf (trace (drainLoop e s))) \<subseteq> set (deliveredOf (trace s)) \<union> set (queue s)"
proof (induction e s rule: drainLoop.induct)
  case (1 e s)
  show ?case
  proof (cases "queue s = []")
    case True
    then show ?thesis by (simp add: drainLoop.simps)
  next
    case False
    with 1 have "set (deliveredOf (trace (drainLoop e (drainStep e s))))
        \<subseteq> set (deliveredOf (trace (drainStep e s))) \<union> set (queue (drainStep e s))"
      by simp
    with drainStep_delivered_subset [of e s] False show ?thesis
      by (simp add: drainLoop.simps [of e s]) blast
  qed
qed

lemma processQueue_delivered_subset:
  "set (deliveredOf (trace (processQueue e s))) \<subseteq> set (deliveredOf (trace s)) \<union> set (queue s)"
  using drainLoop_delivered_subset [of e "s\<lparr>isProcessing := True\<rparr>"]
  by (simp add: processQueue_def)

text \<open>
  Claim C10. Whatever properties the sample has, the record that \<^verbatim>\<open>addLocation\<close>
  builds has the clock reading of the enqueue as its \<^verbatim>\<open>timestamp\<close> and
  \<^verbatim>\<open>'anonymous'\<close> as its \<^verbatim>\<open>user_id\<close>, and so has the row that
  \<^verbatim>\<open>sendLocation\<close> inserts for it (the timestamp rendered as an ISO string). That
  record is what is appended to the queue when no drain follows at once, and what is
  handed to the sink when the enqueue drains it at once; and whatever a drain delivers is
  a record of its queue, as it was queued.
\<close>

theorem enqueue_stamps_time_and_producer:
  "map_of (locationData now l) ''timestamp'' = Some (Num now) \<and>
   map_of (locationData now l) ''user_id'' = Some (Str ''anonymous'') \<and>
   row_timestamp (insertRow (locationData now l)) = ISOString (Some (Num now)) \<and>
   row_user_id (insertRow (locationData now l)) = Some (Str ''anonymous'') \<and>
   (\<not> isOnline s \<or> isProcessing s \<longrightarrow>
      queue (addLocation e now l s) = queue s @ [locationData now l]) \<and>
   (isOnline s \<and> \<not> isProcessing s \<and> queue s = [] \<and>
    deliver e (attempts s) (locationData now l) \<longrightarrow>
      trace (addLocation e now l s) = trace s @ [Sent (locationData now l)]) \<and>
   set (deliveredOf (trace (processQueue e s))) \<subseteq> set (deliveredOf (trace s)) \<union> set (queue s)"
proof -
  have 1: "map_of (locationData now l) ''timestamp'' = Some (Num now)"
    "map_of (locationData now l) ''user_id'' = Some (Str ''anonymous'')"
    by (simp_all add: locationData_def update_conv')
  then have 2: "row_timestamp (insertRow (locationData now l)) = ISOString (Some (Num now))"
    "row_user_id (insertRow (locationData now l)) = Some (Str ''anonymous'')"
    by (simp_all add: insertRow_def)
  have 3: "\<not> isOnline s \<or> isProcessing s \<longrightarrow>
      queue (addLocation e now l s) = queue s @ [locationData now l]"
    using addLocation_queue_parked by blast
  have 4: "trace (addLocation e now l s) = trace s @ [Sent (locationData now l)]"
    if h: "isOnline s \<and> \<not> isProcessing s \<and> queue s = [] \<and>
      deliver e (attempts s) (locationData now l)"
  proof -
    let ?a = "(saveToIndexedDB e (locationData now l)
        (s\<lparr>queue := queue s @ [locationData now l]\<rparr>))\<lparr>isProcessing := True\<rparr>"
    from h have step: "drainStep e ?a =
        ?a\<lparr>queue := [], attempts := attempts ?a + 1, trace := trace ?a @ [Sent (locationData now l)]\<rparr>"
      by (intro drainStep_success) (simp_all add: sendLocation_def)
    then have "queue (drainStep e ?a) = []" by simp
    then have "drainLoop e (drainStep e ?a) = drainStep e ?a"
      by (rule drainLoop_done)
    then have "drainLoop e ?a = drainStep e ?a"
      by (simp add: drainLoop.simps [of e ?a])
    with step h show ?thesis
      by (simp add: addLocation_def Let_def processQueue_def)
  qed
  note 5 = processQueue_delivered_subset [of e s]
  from 1 2 3 4 5 show ?thesis by blast
qed

text \<open>
  The theorem at \<open>sampleC\<close>, which brings a timestamp and a user id of its own, enqueued
  at time 5 on a fresh page, offline and online.
\<close>

theorem enqueue_stamps_time_and_producer_witness:
  "\<not> isOnline (newLocationManager False None) \<and>
   queue (addLocation sinkUp 5 sampleC (newLocationManager False None)) =
     [[(''lat'', Num 1), (''lng'', Num 2), (''timestamp'', Num 5),
       (''user_id'', Str ''anonymous'')]] \<and>
   isOnline (newLocationManager True None) \<and>
   deliver sinkUp 0 (locationData 5 sampleC) \<and>
   trace (addLocation sinkUp 5 sampleC (newLocationManager True None)) =
     [Sent [(''lat'', Num 1), (''lng'', Num 2), (''timestamp'', Num 5),
            (''user_id'', Str ''anonymous'')]] \<and>
   row_timestamp (insertRow (locationData 5 sampleC)) = ISOString (Some (Num 5)) \<and>
   row_user_id (insertRow (locationData 5 sampleC)) = Some (Str ''anonymous'')"
proof -
  have r: "locationData 5 sampleC =
      [(''lat'', Num 1), (''lng'', Num 2), (''timestamp'', Num 5), (''user_id'', Str ''anonymous'')]"
    by (simp add: locationData_def sampleC_def)
  have d: "deliver sinkUp n x" for n x by (simp add: sinkUp_def)
  from enqueue_stamps_time_and_producer [of 5 sampleC "newLocationManager False None" sinkUp]
    enqueue_stamps_time_and_producer [of 5 sampleC "newLocationManager True None" sinkUp] r d
  show ?thesis by (simp add: newLocationManager_def)
qed

section \<open>Heartbeat\<close>

lemma forcedUpdate_tracking:
  "isTracking g \<Longrightarrow> lastLocation g = Some l \<Longrightarrow>
   forcedUpdate e tick now g =
     g\<lparr>manager := addLocation e now (forcedLocation tick l) (manager g),
       emitted := emitted g @ [forcedLocation tick l]\<rparr>"
  by (simp add: forcedUpdate_def Let_def)

lemma forcedUpdates_tracking:
  "isTracking g \<Longrightarrow> lastLocation g = Some l \<Longrightarrow>
   emitted (forcedUpdates e ts g) =
     emitted g @ map (\<lambda>(tick, now). forcedLocation tick l) ts \<and>
   lastLocation (forcedUpdates e ts g) = Some l \<and> isTracking (forcedUpdates e ts g)"
proof (induction ts arbitrary: g)
  case Nil
  then show ?case by simp
next
  case (Cons t ts)
  obtain tick now where t: "t = (tick, now)" by (cases t)
  let ?g1 = "forcedUpdate e tick now g"
  from Cons.prems have g1: "isTracking ?g1" "lastLocation ?g1 = Some l"
    "emitted ?g1 = emitted g @ [forcedLocation tick l]"
    by (simp_all add: forcedUpdate_tracking)
  from Cons.IH [OF g1(1,2)] g1(3) show ?case by (simp add: t)
qed

text \<open>
  Claim C7, as the code has it. While tracking is active, every timer tick that comes
  after a position fix emits one sample: the properties of the most recent fix
  (\<^verbatim>\<open>lat\<close>, \<^verbatim>\<open>lng\<close>, \<^verbatim>\<open>accuracy\<close> among them) with the
  \<^verbatim>\<open>timestamp\<close> replaced by the clock reading of the tick and \<^verbatim>\<open>forced: true\<close>
  added. So the timestamps of the samples emitted by a run of ticks are the clock
  readings of those ticks, and the fix stays the one to reuse. A tick that comes before
  the first fix emits nothing.
\<close>

theorem heartbeat_reuses_last_fix:
  assumes "isTracking g"
  shows "emitted (forcedUpdates e ts (handlePosition e now p g)) =
           emitted g @ locationOf p #
             map (\<lambda>(tick, now'). forcedLocation tick (locationOf p)) ts \<and>
         map (\<lambda>f. map_of f ''timestamp'')
             (drop (length (emitted g) + 1)
                (emitted (forcedUpdates e ts (handlePosition e now p g)))) =
           map (\<lambda>(tick, now'). Some (Num tick)) ts \<and>
         lastLocation (forcedUpdates e ts (handlePosition e now p g)) = Some (locationOf p) \<and>
         map_of (forcedLocation tick (locationOf p)) ''lat'' = Some (Num (latitude p)) \<and>
         map_of (forcedLocation tick (locationOf p)) ''lng'' = Some (Num (longitude p)) \<and>
         map_of (forcedLocation tick (locationOf p)) ''accuracy'' = Some (Num (accuracy p)) \<and>
         map_of (forcedLocation tick (locationOf p)) ''timestamp'' = Some (Num tick) \<and>
         map_of (forcedLocation tick (locationOf p)) ''forced'' = Some (Bool True)"
proof -
  let ?g1 = "handlePosition e now p g"
  from assms have g1: "isTracking ?g1" "lastLocation ?g1 = Some (locationOf p)"
    "emitted ?g1 = emitted g @ [locationOf p]"
    by (simp_all add: handlePosition_def Let_def)
  from forcedUpdates_tracking [OF g1(1,2), of e ts] g1(3)
  have em: "emitted (forcedUpdates e ts ?g1) =
           emitted g @ locationOf p #
             map (\<lambda>(tick, now'). forcedLocation tick (locationOf p)) ts"
    and last: "lastLocation (forcedUpdates e ts ?g1) = Some (locationOf p)"
    by simp_all
  have ts: "map_of (forcedLocation t l) ''timestamp'' = Some (Num t)" for t l
    by (simp add: forcedLocation_def update_conv')
  have stamps: "map (\<lambda>f. map_of f ''timestamp'')
             (drop (length (emitted g) + 1) (emitted (forcedUpdates e ts ?g1))) =
           map (\<lambda>(tick, now'). Some (Num tick)) ts"
    unfolding em by (simp add: ts case_prod_unfold)
  have fields: "map_of (forcedLocation tick (locationOf p)) ''lat'' = Some (Num (latitude p))"
    "map_of (forcedLocation tick (locationOf p)) ''lng'' = Some (Num (longitude p))"
    "map_of (forcedLocation tick (locationOf p)) ''accuracy'' = Some (Num (accuracy p))"
    "map_of (forcedLocation tick (locationOf p)) ''forced'' = Some (Bool True)"
    by (simp_all add: forcedLocation_def locationOf_def update_conv')
  from em stamps last ts fields show ?thesis by simp
qed

text \<open>A fix, then two ticks with no fix in between.\<close>

theorem heartbeat_reuses_last_fix_witness:
  "isTracking trackingStarted \<and>
   emitted (forcedUpdates sinkUp [(5000, 5000), (10000, 10001)]
     (handlePosition sinkUp 101 fixA trackingStarted)) =
     [locationOf fixA, forcedLocation 5000 (locationOf fixA),
      forcedLocation 10000 (locationOf fixA)] \<and>
   map_of (forcedLocation 10000 (locationOf fixA)) ''lat'' = Some (Num 1) \<and>
   map_of (forcedLocation 10000 (locationOf fixA)) ''lng'' = Some (Num 2) \<and>
   map_of (forcedLocation 10000 (locationOf fixA)) ''timestamp'' = Some (Num 10000)"
proof -
  have h: "isTracking trackingStarted" "emitted trackingStarted = []"
    by (simp_all add: trackingStarted_def newGeolocationService_def)
  have f: "latitude fixA = 1" "longitude fixA = 2" by (simp_all add: fixA_def)
  from heartbeat_reuses_last_fix [OF h(1), of sinkUp "[(5000, 5000), (10000, 10001)]" 101 fixA
      10000] h f
  show ?thesis by simp
qed

text \<open>Tracking is active and no fix has arrived yet: the tick does nothing.\<close>

theorem heartbeat_before_first_fix_counterexample:
  "isTracking trackingStarted \<and>
   emitted (forcedUpdate sinkUp 5000 5000 trackingStarted) = [] \<and>
   forcedUpdate sinkUp 5000 5000 trackingStarted = trackingStarted"
  by (simp add: trackingStarted_def newGeolocationService_def forcedUpdate_def)

end
